theory Spec2Isabelle
  imports Complex_Main "HOL-Library.AList" "HOL-Library.Multiset"
begin

section \<open>Values, exceptions and collaborators\<close>

text \<open>
  A decoded JSON value, as \<^verbatim>\<open>response.json()\<close> returns it. A JSON object is a Python
  dict: its items are kept in insertion order, so it is an association list; a real dict
  has distinct keys. The code under study never inspects a number.
\<close>

datatype json =
    JNull
  | JBool bool
  | JInt int
  | JFloat real
  | JStr string
  | JList "json list"
  | JObj "(string \<times> json) list"

text \<open>
  The exceptions that can travel through \<^verbatim>\<open>update\<close>: the three classes imported from
  \<^verbatim>\<open>iaqualink.exception\<close>, the Python errors raised by decoding, subscripting, iterating
  and attribute access, and any other exception a collaborator may raise.
\<close>

datatype exn =
    AqualinkServiceException
  | AqualinkServiceUnauthorizedException
  | AqualinkSystemOfflineException
  | JSONDecodeError
  | KeyError
  | TypeError
  | AttributeError
  | OtherException

text \<open>
  Modelled from the spec: the class hierarchy of \<^verbatim>\<open>iaqualink.exception\<close>, which is not
  among the sources. The unauthorized failure is a kind of service error (a second
  unauthorized failure "is reclassified as a propagated service error"); the system-offline
  condition is "distinct from transport failure". \<open>service_exception e\<close> says that
  \<^verbatim>\<open>except AqualinkServiceException\<close> catches \<open>e\<close>.
\<close>

fun service_exception :: "exn \<Rightarrow> bool" where
  "service_exception AqualinkServiceException = True"
| "service_exception AqualinkServiceUnauthorizedException = True"
| "service_exception _ = False"

text \<open>An \<^verbatim>\<open>httpx.Response\<close>: all the code asks of it is \<^verbatim>\<open>json()\<close>, which decodes or raises.\<close>

datatype response = Response "json option"

fun response_json :: "response \<Rightarrow> exn + json" where
  "response_json (Response None) = Inl JSONDecodeError"
| "response_json (Response (Some d)) = Inr d"

record request =
  url :: string
  headers :: "(string \<times> string) list"
  kwargs :: "(string \<times> json) list"

text \<open>
  The client object \<^verbatim>\<open>self.aqualink\<close>. \<open>id_token\<close> is its attribute; \<open>requests\<close> and
  \<open>logins\<close> record the calls made to it so far (oldest request first), so that what a
  call did to the network can be stated.
\<close>

record client =
  id_token :: string
  requests :: "request list"
  logins :: nat

text \<open>
  The behaviour of the collaborators is a parameter: what the transport answers to a
  request and what the authenticator answers to a login, each as a function of the
  client's state (which holds the history of calls).
\<close>

record env =
  send_result :: "client \<Rightarrow> request \<Rightarrow> exn + response"
  login_result :: "client \<Rightarrow> exn + string"

text \<open>
  Modelled from the spec: \<^verbatim>\<open>AqualinkClient.send_request\<close> and \<^verbatim>\<open>AqualinkClient.login\<close>
  (\<^verbatim>\<open>iaqualink.client\<close> is not among the sources). The transport performs one exchange and
  returns a response or fails; the authenticator returns a fresh credential, stored as
  \<open>id_token\<close>, or fails.
\<close>

definition send_request :: "env \<Rightarrow> client \<Rightarrow> request \<Rightarrow> (exn + response) \<times> client" where
  "send_request E c rq = (send_result E c rq, c\<lparr>requests := requests c @ [rq]\<rparr>)"

definition login :: "env \<Rightarrow> client \<Rightarrow> (exn + unit) \<times> client" where
  "login E c =
     (case login_result E c of
        Inl e \<Rightarrow> (Inl e, c\<lparr>logins := Suc (logins c)\<rparr>)
      | Inr tok \<Rightarrow> (Inr (), c\<lparr>id_token := tok, logins := Suc (logins c)\<rparr>))"

section \<open>Devices\<close>

datatype device_class = CyclonextSensor | CyclonextAttributeSensor | CyclonextProg

text \<open>
  A device object: its class, its attribute bag \<^verbatim>\<open>data\<close> (a dict) and \<open>ident\<close>, the
  identity of the Python object, which no assignment to \<^verbatim>\<open>data[...]\<close> changes.
\<close>

record device =
  ident :: nat
  cls :: device_class
  data :: "(string \<times> json) list"

text \<open>
  The system object. \<open>online\<close> is the tri-state status (\<open>None\<close> for unknown), \<open>devices\<close>
  the registry \<^verbatim>\<open>self.devices\<close>, and \<open>next_id\<close> the first identity no object has yet: it
  stands for the allocation of a new Python object and is read by nothing in the code.
\<close>

record system =
  serial :: string
  aqualink :: client
  last_refresh :: int
  online :: "bool option"
  devices :: "string \<rightharpoonup> device"
  next_id :: nat

definition getitem :: "(string \<times> json) list \<Rightarrow> string \<Rightarrow> exn + json" where
  "getitem d k = (case map_of d k of None \<Rightarrow> Inl KeyError | Some v \<Rightarrow> Inr v)"

text \<open>
  \<^verbatim>\<open>CyclonextDevice.from_data\<close>: the class is chosen from \<^verbatim>\<open>data["name"]\<close>; the new
  object takes the next free identity of the system \<open>s\<close>.
\<close>

definition from_data :: "system \<Rightarrow> (string \<times> json) list \<Rightarrow> exn + device" where
  "from_data s d =
     (case getitem d ''name'' of
        Inl e \<Rightarrow> Inl e
      | Inr n \<Rightarrow>
          Inr \<lparr>ident = next_id s,
               cls = (if n \<in> set [JStr ''production'', JStr ''boost'', JStr ''low'']
                      then CyclonextProg else CyclonextAttributeSensor),
               data = d\<rparr>)"

section \<open>Requests\<close>

definition CYCLONEXT_DEVICES_URL :: string where
  "CYCLONEXT_DEVICES_URL = ''https://prod.zodiac-io.com/devices/v1''"

text \<open>
  \<^verbatim>\<open>send_devices_request\<close>: one request; when it raises the unauthorized exception, one
  login, a header built from the new token and one more request. An exception raised by
  the login or by the second request leaves the function.
\<close>

definition send_devices_request ::
  "env \<Rightarrow> (string \<times> json) list \<Rightarrow> system \<Rightarrow> (exn + response) \<times> system" where
  "send_devices_request E kw s =
     (let u = CYCLONEXT_DEVICES_URL @ ''/'' @ serial s @ ''/shadow'';
          hs = [(''Authorization'', id_token (aqualink s))];
          (r, c1) = send_request E (aqualink s) \<lparr>url = u, headers = hs, kwargs = kw\<rparr>
      in if r = Inl AqualinkServiceUnauthorizedException then
           (case login E c1 of
              (Inl e, c2) \<Rightarrow> (Inl e, s\<lparr>aqualink := c2\<rparr>)
            | (Inr _, c2) \<Rightarrow>
                (let hs' = [(''Authorization'', id_token c2)];
                     (r', c3) = send_request E c2 \<lparr>url = u, headers = hs', kwargs = kw\<rparr>
                 in (r', s\<lparr>aqualink := c3\<rparr>)))
         else (r, s\<lparr>aqualink := c1\<rparr>))"

definition send_reported_state_request :: "env \<Rightarrow> system \<Rightarrow> (exn + response) \<times> system" where
  "send_reported_state_request E s = send_devices_request E [] s"

definition send_desired_state_request ::
  "env \<Rightarrow> (string \<times> json) list \<Rightarrow> system \<Rightarrow> (exn + response) \<times> system" where
  "send_desired_state_request E st s =
     send_devices_request E
       [(''method'', JStr ''post''),
        (''json'', JObj [(''state'', JObj [(''desired'', JObj st)])])] s"

section \<open>Parsing the shadow document\<close>

text \<open>Subscripting a decoded value with a string key, \<^verbatim>\<open>v[k]\<close>.\<close>

fun subscript :: "json \<Rightarrow> string \<Rightarrow> exn + json" where
  "subscript (JObj d) k = getitem d k"
| "subscript _ k = Inl TypeError"

fun subscripts :: "json \<Rightarrow> string list \<Rightarrow> exn + json" where
  "subscripts v [] = Inr v"
| "subscripts v (k # ks) = (case subscript v k of Inl e \<Rightarrow> Inl e | Inr w \<Rightarrow> subscripts w ks)"

text \<open>
  What \<^verbatim>\<open>enumerate(root)\<close> iterates: the elements of a list, the keys of a dict, the
  characters of a string; nothing else is iterable.
\<close>

fun iterate :: "json \<Rightarrow> exn + json list" where
  "iterate (JList xs) = Inr xs"
| "iterate (JObj d) = Inr (map (\<lambda>p. JStr (fst p)) d)"
| "iterate (JStr cs) = Inr (map (\<lambda>c. JStr [c]) cs)"
| "iterate _ = Inl TypeError"

text \<open>\<^verbatim>\<open>v.items()\<close>: only a dict has the attribute.\<close>

fun items :: "json \<Rightarrow> exn + (string \<times> json) list" where
  "items (JObj d) = Inr d"
| "items _ = Inl AttributeError"

text \<open>\<^verbatim>\<open>attrs = {"name": name}; attrs.update({"state": state})\<close>\<close>

definition attrs :: "string \<Rightarrow> json \<Rightarrow> (string \<times> json) list" where
  "attrs name state = AList.update ''state'' state [(''name'', JStr name)]"

type_synonym flat = "(string \<times> (string \<times> json) list) list"

text \<open>The loop over \<^verbatim>\<open>state.items()\<close> of a durations value (lines 112 to 116).\<close>

fun flatten_durations :: "(string \<times> json) list \<Rightarrow> flat \<Rightarrow> flat" where
  "flatten_durations [] ds = ds"
| "flatten_durations ((durName, durState) # rest) ds =
     flatten_durations rest
       (if durName \<in> set [''quickTim'', ''deepTim'', ''stepper'']
        then AList.update durName (attrs durName durState) ds else ds)"

text \<open>The loop over \<^verbatim>\<open>value.items()\<close> of one robot entry (lines 105 to 116).\<close>

fun flatten_items :: "(string \<times> json) list \<Rightarrow> flat \<Rightarrow> exn + flat" where
  "flatten_items [] ds = Inr ds"
| "flatten_items ((name, state) # rest) ds =
     (let ds1 = (if name \<in> set [''mode'', ''cycle'', ''cycleStartTime'']
                 then AList.update name (attrs name state) ds else ds)
      in if name = ''durations'' then
           (case items state of
              Inl e \<Rightarrow> Inl e
            | Inr durs \<Rightarrow> flatten_items rest (flatten_durations durs ds1))
         else flatten_items rest ds1)"

text \<open>The loop over the robot sequence (lines 100 to 116).\<close>

fun flatten_robot :: "json list \<Rightarrow> flat \<Rightarrow> exn + flat" where
  "flatten_robot [] ds = Inr ds"
| "flatten_robot (v # rest) ds =
     (if v = JNull then flatten_robot rest ds
      else (case items v of
              Inl e \<Rightarrow> Inl e
            | Inr its \<Rightarrow>
                (case flatten_items its ds of
                   Inl e \<Rightarrow> Inl e
                 | Inr ds' \<Rightarrow> flatten_robot rest ds')))"

text \<open>Lines 90 to 116: decode, walk to the robot sequence, flatten it from an empty dict.\<close>

definition flatten :: "response \<Rightarrow> exn + flat" where
  "flatten r =
     (case response_json r of
        Inl e \<Rightarrow> Inl e
      | Inr d \<Rightarrow>
          (case subscripts d [''state'', ''reported'', ''equipment'', ''robot''] of
             Inl e \<Rightarrow> Inl e
           | Inr robot \<Rightarrow>
               (case iterate robot of
                  Inl e \<Rightarrow> Inl e
                | Inr vs \<Rightarrow> flatten_robot vs [])))"

text \<open>\<^verbatim>\<open>for dk, dv in v.items(): dev.data[dk] = dv\<close> on an existing device object.\<close>

fun setitems :: "(string \<times> json) list \<Rightarrow> device \<Rightarrow> device" where
  "setitems [] dev = dev"
| "setitems ((dk, dv) # rest) dev = setitems rest (dev\<lparr>data := AList.update dk dv (data dev)\<rparr>)"

text \<open>
  The merge loop (lines 120 to 125). An exception leaves the loop with the registry as
  the earlier iterations made it, so the state is returned beside the outcome.
\<close>

fun merge :: "flat \<Rightarrow> system \<Rightarrow> (exn + unit) \<times> system" where
  "merge [] s = (Inr (), s)"
| "merge ((k, v) # rest) s =
     (case devices s k of
        Some dev \<Rightarrow> merge rest (s\<lparr>devices := (devices s)(k \<mapsto> setitems v dev)\<rparr>)
      | None \<Rightarrow>
          (case from_data s v of
             Inl e \<Rightarrow> (Inl e, s)
           | Inr dev \<Rightarrow>
               merge rest (s\<lparr>devices := (devices s)(k \<mapsto> dev), next_id := Suc (next_id s)\<rparr>)))"

definition parse_shadow_response :: "response \<Rightarrow> system \<Rightarrow> (exn + unit) \<times> system" where
  "parse_shadow_response r s =
     (case flatten r of
        Inl e \<Rightarrow> (Inl e, s)
      | Inr ds \<Rightarrow> merge ds s)"

section \<open>Refreshing\<close>

text \<open>
  \<^verbatim>\<open>update\<close>, with the method it calls through \<^verbatim>\<open>self\<close> as the parameter \<open>parse\<close>.
  \<open>MIN_SECS_TO_REFRESH\<close> is the constant of \<^verbatim>\<open>iaqualink.const\<close>; \<open>now\<close> and \<open>now'\<close> are the
  two readings \<^verbatim>\<open>int(time.time())\<close>, at lines 68 and 87.
\<close>

definition update_with ::
  "(response \<Rightarrow> system \<Rightarrow> (exn + unit) \<times> system) \<Rightarrow> env \<Rightarrow> int \<Rightarrow> int \<Rightarrow> int \<Rightarrow> system
     \<Rightarrow> (exn + unit) \<times> system" where
  "update_with parse E MIN_SECS_TO_REFRESH now now' s =
     (let delta = now - last_refresh s
      in if delta < MIN_SECS_TO_REFRESH then (Inr (), s)
         else
           (case send_reported_state_request E s of
              (Inl e, s1) \<Rightarrow>
                if service_exception e then (Inl e, s1\<lparr>online := None\<rparr>) else (Inl e, s1)
            | (Inr r, s1) \<Rightarrow>
                (case parse r s1 of
                   (Inl e, s2) \<Rightarrow>
                     if e = AqualinkSystemOfflineException
                     then (Inl e, s2\<lparr>online := Some False\<rparr>) else (Inl e, s2)
                 | (Inr _, s2) \<Rightarrow> (Inr (), s2\<lparr>online := Some True, last_refresh := now'\<rparr>))))"

definition update :: "env \<Rightarrow> int \<Rightarrow> int \<Rightarrow> int \<Rightarrow> system \<Rightarrow> (exn + unit) \<times> system" where
  "update = update_with parse_shadow_response"

section \<open>Notions used in the statements\<close>

text \<open>
  The recognised \<open>(name, state)\<close> occurrences of a robot sequence, in the order in which
  the three loops meet them: each one is a \<^verbatim>\<open>devices.update({name: attrs})\<close> of the
  source. \<open>record_all\<close> replays such a sequence on the transient dict.
\<close>

definition record_all :: "(string \<times> json) list \<Rightarrow> flat \<Rightarrow> flat" where
  "record_all ws ds = fold (\<lambda>p. AList.update (fst p) (attrs (fst p) (snd p))) ws ds"

definition dur_writes :: "(string \<times> json) list \<Rightarrow> (string \<times> json) list" where
  "dur_writes d = filter (\<lambda>p. fst p \<in> set [''quickTim'', ''deepTim'', ''stepper'']) d"

fun durations_writes :: "json \<Rightarrow> (string \<times> json) list" where
  "durations_writes (JObj d) = dur_writes d"
| "durations_writes _ = []"

fun item_writes :: "string \<times> json \<Rightarrow> (string \<times> json) list" where
  "item_writes (name, state) =
     (if name \<in> set [''mode'', ''cycle'', ''cycleStartTime''] then [(name, state)] else []) @
     (if name = ''durations'' then durations_writes state else [])"

fun entry_writes :: "json \<Rightarrow> (string \<times> json) list" where
  "entry_writes (JObj its) = concat (map item_writes its)"
| "entry_writes _ = []"

definition robot_writes :: "json list \<Rightarrow> (string \<times> json) list" where
  "robot_writes vs = concat (map entry_writes vs)"

text \<open>
  The shape the loops need: an entry is null or a mapping, and a value stored under
  \<^verbatim>\<open>durations\<close> is a mapping.
\<close>

fun item_ok :: "string \<times> json \<Rightarrow> bool" where
  "item_ok (name, JObj d) = True"
| "item_ok (name, _) = (name \<noteq> ''durations'')"

fun entry_ok :: "json \<Rightarrow> bool" where
  "entry_ok JNull = True"
| "entry_ok (JObj its) = list_all item_ok its"
| "entry_ok _ = False"




text \<open>Every recorded attribute dict has a \<^verbatim>\<open>name\<close> key.\<close>

definition named :: "flat \<Rightarrow> bool" where
  "named ds = (\<forall>p \<in> set ds. map_of (snd p) ''name'' \<noteq> None)"

text \<open>Every registered device carries its key as its \<^verbatim>\<open>name\<close> attribute.\<close>

definition registry_named :: "system \<Rightarrow> bool" where
  "registry_named s = (\<forall>k d. devices s k = Some d \<longrightarrow> map_of (data d) ''name'' = Some (JStr k))"

text \<open>
  The system as \<^verbatim>\<open>__init__\<close> leaves it: \<^verbatim>\<open>last_refresh = 0\<close> (line 34). The parent's
  constructor is not among the sources; the registry starts empty (devices are created
  on first sight) and the online status unknown.
\<close>

definition init :: "string \<Rightarrow> client \<Rightarrow> system" where
  "init sn c =
     \<lparr>serial = sn, aqualink = c, last_refresh = 0, online = None,
      devices = Map.empty, next_id = 0\<rparr>"

section \<open>The flattening loops\<close>

lemma record_all_append: "record_all (ws @ ws') ds = record_all ws' (record_all ws ds)"
  by (simp add: record_all_def)

lemma flatten_durations_writes: "flatten_durations d ds = record_all (dur_writes d) ds"
  by (induction d ds rule: flatten_durations.induct) (auto simp: record_all_def dur_writes_def)



lemma flatten_items_fail:
  "flatten_items its ds = Inl e \<Longrightarrow> e = AttributeError \<and> \<not> list_all item_ok its"
proof (induction its ds rule: flatten_items.induct)
  case (1 ds)
  then show ?case by simp
next
  case (2 name state rest ds)
  then show ?case
    by (cases state) (auto simp: Let_def split: if_splits)
qed

lemma flatten_robot_fail:
  "flatten_robot vs ds = Inl e \<Longrightarrow> e = AttributeError \<and> \<not> list_all entry_ok vs"
proof (induction vs ds rule: flatten_robot.induct)
  case (1 ds)
  then show ?case by simp
next
  case (2 v rest ds)
  then show ?case
    by (cases v) (auto split: if_splits sum.splits dest: flatten_items_fail)
qed


lemma record_all_distinct: "distinct (map fst ds) \<Longrightarrow> distinct (map fst (record_all ws ds))"
  unfolding record_all_def
  by (induction ws arbitrary: ds) (auto simp: distinct_update)

lemma record_all_map_of:
  "map_of (record_all ws ds) n =
     (case map_of (rev ws) n of Some v \<Rightarrow> Some (attrs n v) | None \<Rightarrow> map_of ds n)"
  unfolding record_all_def
proof (induction ws arbitrary: ds)
  case Nil
  show ?case by simp
next
  case (Cons w ws)
  show ?case
    by (cases w) (auto simp: Cons.IH update_conv' map_add_def split: option.splits)
qed

lemma record_all_entry:
  assumes "(n, a) \<in> set (record_all ws [])"
  shows "\<exists>v. (n, v) \<in> set ws \<and> a = attrs n v"
proof -
  have "distinct (map fst (record_all ws []))" by (simp add: record_all_distinct)
  with assms have "map_of (record_all ws []) n = Some a" by simp
  then obtain v where v: "map_of (rev ws) n = Some v" and a: "a = attrs n v"
    by (auto simp: record_all_map_of split: option.splits)
  from v have "(n, v) \<in> set (rev ws)" by (rule map_of_SomeD)
  with a show ?thesis by auto
qed



declare item_writes.simps [simp del]








lemma attrs_eq: "attrs n v = [(''name'', JStr n), (''state'', v)]"
  by (simp add: attrs_def)



lemma flatten_items_result:
  "flatten_items its ds = Inr ds' \<Longrightarrow> ds' = record_all (concat (map item_writes its)) ds"
proof (induction its arbitrary: ds)
  case Nil
  then show ?case by (simp add: record_all_def)
next
  case (Cons p its)
  obtain name state where p: "p = (name, state)" by (cases p)
  show ?case
  proof (cases "name = ''durations''")
    case True
    with Cons.prems obtain d where d: "state = JObj d"
      by (cases state) (simp_all add: p)
    from Cons.prems True d
    have "flatten_items its (flatten_durations d
        (if name \<in> set [''mode'', ''cycle'', ''cycleStartTime'']
         then AList.update name (attrs name state) ds else ds)) = Inr ds'"
      by (simp add: p)
    from Cons.IH [OF this] True d show ?thesis
      by (simp add: p item_writes.simps flatten_durations_writes record_all_append record_all_def)
  next
    case False
    with Cons.prems
    have "flatten_items its
        (if name \<in> set [''mode'', ''cycle'', ''cycleStartTime'']
         then AList.update name (attrs name state) ds else ds) = Inr ds'"
      by (simp add: p)
    from Cons.IH [OF this] False show ?thesis
      by (simp add: p item_writes.simps record_all_append record_all_def)
  qed
qed

lemma flatten_robot_result:
  "flatten_robot vs ds = Inr ds' \<Longrightarrow> ds' = record_all (robot_writes vs) ds"
proof (induction vs arbitrary: ds)
  case Nil
  then show ?case by (simp add: record_all_def robot_writes_def)
next
  case (Cons v vs)
  show ?case
  proof (cases "v = JNull")
    case True
    with Cons.prems have "flatten_robot vs ds = Inr ds'" by simp
    from Cons.IH [OF this] True show ?thesis by (simp add: robot_writes_def)
  next
    case False
    with Cons.prems obtain its where its: "v = JObj its"
      by (cases v) simp_all
    with Cons.prems obtain ds1 where one: "flatten_items its ds = Inr ds1"
        and rest: "flatten_robot vs ds1 = Inr ds'"
      by (auto split: sum.splits)
    from flatten_items_result [OF one] Cons.IH [OF rest] its show ?thesis
      by (simp add: robot_writes_def record_all_append)
  qed
qed

lemma flatten_result:
  assumes "flatten r = Inr ds"
  shows "\<exists>ws. ds = record_all ws []"
proof -
  from assms obtain vs where "flatten_robot vs [] = Inr ds"
    unfolding flatten_def by (auto split: sum.splits)
  then have "ds = record_all (robot_writes vs) []" by (rule flatten_robot_result)
  then show ?thesis ..
qed

lemma flatten_distinct: "flatten r = Inr ds \<Longrightarrow> distinct (map fst ds)"
  by (auto dest!: flatten_result intro: record_all_distinct)

lemma flatten_entry:
  "flatten r = Inr ds \<Longrightarrow> (n, a) \<in> set ds \<Longrightarrow> \<exists>v. a = [(''name'', JStr n), (''state'', v)]"
  by (auto dest!: flatten_result record_all_entry simp: attrs_eq)

lemma flatten_fails_early:
  "flatten r = Inl e \<Longrightarrow> e \<in> {JSONDecodeError, KeyError, TypeError, AttributeError}"
proof -
  assume a: "flatten r = Inl e"
  have sub: "subscript j k = Inl e \<Longrightarrow> e = KeyError \<or> e = TypeError" for j k e
    by (cases j) (auto simp: getitem_def split: option.splits)
  have subs: "subscripts j ks = Inl e \<Longrightarrow> e = KeyError \<or> e = TypeError" for j ks e
    by (induction ks arbitrary: j) (auto split: sum.splits dest: sub)
  have it: "iterate j = Inl e \<Longrightarrow> e = TypeError" for j e
    by (cases j) auto
  have js: "response_json r = Inl e \<Longrightarrow> e = JSONDecodeError" for e
    by (cases r rule: response_json.cases) auto
  from a show ?thesis
    unfolding flatten_def
    by (auto split: sum.splits dest: subs it js flatten_robot_fail simp del: subscripts.simps)
qed

section \<open>The merge loop and the parse\<close>

lemma setitems_ident [simp]: "ident (setitems v d) = ident d"
  by (induction v d rule: setitems.induct) simp_all

lemma setitems_cls [simp]: "cls (setitems v d) = cls d"
  by (induction v d rule: setitems.induct) simp_all

lemma setitems_attrs:
  "setitems [(''name'', JStr n), (''state'', st)] d =
     d\<lparr>data := AList.update ''state'' st (AList.update ''name'' (JStr n) (data d))\<rparr>"
  by simp

lemma from_data_named:
  "map_of v ''name'' = Some n \<Longrightarrow>
     \<exists>d. from_data s v = Inr d \<and> ident d = next_id s \<and> data d = v"
  by (simp add: from_data_def getitem_def)

lemma from_data_ident:
  "from_data s v = Inr d \<Longrightarrow> ident d = next_id s \<and> from_data (s\<lparr>next_id := ident d\<rparr>) v = Inr d"
  by (auto simp: from_data_def getitem_def split: option.splits)

lemma merge_frame:
  "merge ds s = (res, s') \<Longrightarrow>
     serial s' = serial s \<and> aqualink s' = aqualink s \<and> last_refresh s' = last_refresh s \<and>
     online s' = online s \<and> next_id s \<le> next_id s'"
proof (induction ds arbitrary: s)
  case Nil
  then show ?case by simp
next
  case (Cons p ds)
  obtain k v where p: "p = (k, v)" by (cases p)
  show ?case
  proof (cases "devices s k")
    case (Some dev)
    with Cons.prems have "merge ds (s\<lparr>devices := (devices s)(k \<mapsto> setitems v dev)\<rparr>) = (res, s')"
      by (simp add: p)
    from Cons.IH [OF this] show ?thesis by simp
  next
    case None
    show ?thesis
    proof (cases "from_data s v")
      case (Inl e)
      with None Cons.prems show ?thesis by (simp add: p)
    next
      case (Inr dev)
      with None Cons.prems
      have "merge ds (s\<lparr>devices := (devices s)(k \<mapsto> dev), next_id := Suc (next_id s)\<rparr>) = (res, s')"
        by (simp add: p)
      from Cons.IH [OF this] show ?thesis by simp
    qed
  qed
qed

lemma merge_keeps:
  "devices s k = Some d \<Longrightarrow>
     \<exists>d'. devices (snd (merge ds s)) k = Some d' \<and> ident d' = ident d \<and> cls d' = cls d"
proof (induction ds arbitrary: s d)
  case Nil
  then show ?case by simp
next
  case (Cons p ds)
  obtain k' v where p: "p = (k', v)" by (cases p)
  show ?case
  proof (cases "devices s k'")
    case (Some dev)
    let ?s1 = "s\<lparr>devices := (devices s)(k' \<mapsto> setitems v dev)\<rparr>"
    from Some Cons.prems
    have "\<exists>d1. devices ?s1 k = Some d1 \<and> ident d1 = ident d \<and> cls d1 = cls d"
      by (cases "k = k'") simp_all
    then obtain d1 where d1: "devices ?s1 k = Some d1" "ident d1 = ident d" "cls d1 = cls d"
      by blast
    from Cons.IH [OF d1(1)] d1(2,3) Some show ?thesis by (simp add: p)
  next
    case None
    with Cons.prems have ne: "k \<noteq> k'" by auto
    show ?thesis
    proof (cases "from_data s v")
      case (Inl e)
      with None Cons.prems show ?thesis by (simp add: p)
    next
      case (Inr dev)
      let ?s1 = "s\<lparr>devices := (devices s)(k' \<mapsto> dev), next_id := Suc (next_id s)\<rparr>"
      from ne Cons.prems have "devices ?s1 k = Some d" by simp
      from Cons.IH [OF this] None Inr show ?thesis by (simp add: p)
    qed
  qed
qed

lemma merge_dom_mono: "dom (devices s) \<subseteq> dom (devices (snd (merge ds s)))"
proof
  fix k assume "k \<in> dom (devices s)"
  then obtain d where "devices s k = Some d" by blast
  from merge_keeps [OF this, of ds] show "k \<in> dom (devices (snd (merge ds s)))" by blast
qed

lemma merge_untouched:
  "k \<notin> fst ` set ds \<Longrightarrow> devices (snd (merge ds s)) k = devices s k"
proof (induction ds arbitrary: s)
  case Nil
  then show ?case by simp
next
  case (Cons p ds)
  obtain k' v where p: "p = (k', v)" by (cases p)
  from Cons.prems have ne: "k \<noteq> k'" and rest: "k \<notin> fst ` set ds" by (auto simp: p)
  show ?case
  proof (cases "devices s k'")
    case (Some dev)
    with Cons.IH [OF rest, of "s\<lparr>devices := (devices s)(k' \<mapsto> setitems v dev)\<rparr>"] ne
    show ?thesis by (simp add: p)
  next
    case None
    show ?thesis
    proof (cases "from_data s v")
      case (Inl e)
      with None show ?thesis by (simp add: p)
    next
      case (Inr dev)
      with None ne
        Cons.IH [OF rest, of "s\<lparr>devices := (devices s)(k' \<mapsto> dev), next_id := Suc (next_id s)\<rparr>"]
      show ?thesis by (simp add: p)
    qed
  qed
qed

lemma merge_succeeds: "named ds \<Longrightarrow> fst (merge ds s) = Inr ()"
proof (induction ds arbitrary: s)
  case Nil
  then show ?case by simp
next
  case (Cons p ds)
  obtain k v where p: "p = (k, v)" by (cases p)
  from Cons.prems have nm: "map_of v ''name'' \<noteq> None" and rest: "named ds"
    by (simp_all add: named_def p)
  from nm obtain dev where fd: "from_data s v = Inr dev"
    using from_data_named [of v _ s] by blast
  show ?case
    using Cons.IH [OF rest] fd by (cases "devices s k") (simp_all add: p)
qed

lemma merge_entry:
  assumes "distinct (map fst ds)" and "named ds" and "(k, v) \<in> set ds"
  shows "(\<forall>d. devices s k = Some d \<longrightarrow> devices (snd (merge ds s)) k = Some (setitems v d)) \<and>
         (devices s k = None \<longrightarrow>
            (\<exists>d'. devices (snd (merge ds s)) k = Some d' \<and> next_id s \<le> ident d' \<and>
               from_data (s\<lparr>next_id := ident d'\<rparr>) v = Inr d'))"
  using assms
proof (induction ds arbitrary: s)
  case Nil
  then show ?case by simp
next
  case (Cons p ds)
  obtain k' v' where p: "p = (k', v')" by (cases p)
  from Cons.prems have k': "k' \<notin> fst ` set ds" and dist: "distinct (map fst ds)"
    and nm: "map_of v' ''name'' \<noteq> None" and rest: "named ds"
    by (auto simp: p named_def)
  from nm obtain dev where fd: "from_data s v' = Inr dev"
    using from_data_named [of v' _ s] by blast
  define s1 where "s1 = (case devices s k' of
      Some d0 \<Rightarrow> s\<lparr>devices := (devices s)(k' \<mapsto> setitems v' d0)\<rparr>
    | None \<Rightarrow> s\<lparr>devices := (devices s)(k' \<mapsto> dev), next_id := Suc (next_id s)\<rparr>)"
  have step: "merge (p # ds) s = merge ds s1"
    using fd by (simp add: p s1_def split: option.splits)
  have nid: "next_id s \<le> next_id s1"
    by (simp add: s1_def split: option.splits)
  show ?case
  proof (cases "k = k'")
    case True
    with Cons.prems k' have v: "v = v'"
      by (auto simp: p) (metis fst_conv image_eqI)
    have keep: "devices (snd (merge ds s1)) k = devices s1 k"
      using k' True by (simp add: merge_untouched)
    show ?thesis
      unfolding step keep
      using True v fd from_data_ident [OF fd]
      by (auto simp: s1_def split: option.splits)
  next
    case False
    with Cons.prems have mem: "(k, v) \<in> set ds" by (simp add: p)
    have same: "devices s1 k = devices s k"
      using False by (simp add: s1_def split: option.splits)
    have fd_eq: "from_data (s1\<lparr>next_id := i\<rparr>) v = from_data (s\<lparr>next_id := i\<rparr>) v" for i
      by (cases "getitem v ''name''") (simp_all add: from_data_def)
    from Cons.IH [OF dist rest mem, of s1] nid
    show ?thesis
      unfolding step same fd_eq by (meson le_trans)
  qed
qed

lemma merge_dom:
  "named ds \<Longrightarrow> dom (devices (snd (merge ds s))) = dom (devices s) \<union> fst ` set ds"
proof (induction ds arbitrary: s)
  case Nil
  then show ?case by simp
next
  case (Cons p ds)
  obtain k v where p: "p = (k, v)" by (cases p)
  from Cons.prems have nm: "map_of v ''name'' \<noteq> None" and rest: "named ds"
    by (simp_all add: named_def p)
  from nm obtain dev where fd: "from_data s v = Inr dev"
    using from_data_named [of v _ s] by blast
  show ?case
  proof (cases "devices s k")
    case (Some d0)
    then have "k \<in> dom (devices s)" by blast
    with Cons.IH [OF rest, of "s\<lparr>devices := (devices s)(k \<mapsto> setitems v d0)\<rparr>"] Some
    show ?thesis by (auto simp: p)
  next
    case None
    with Cons.IH [OF rest, of "s\<lparr>devices := (devices s)(k \<mapsto> dev), next_id := Suc (next_id s)\<rparr>"] fd
    show ?thesis by (auto simp: p)
  qed
qed

lemma flatten_named: "flatten r = Inr ds \<Longrightarrow> named ds"
  unfolding named_def
proof
  fix p assume f: "flatten r = Inr ds" and p: "p \<in> set ds"
  obtain n a where pa: "p = (n, a)" by (cases p)
  from flatten_entry [OF f, of n a] p pa obtain v
    where "a = [(''name'', JStr n), (''state'', v)]" by blast
  then show "map_of (snd p) ''name'' \<noteq> None" by (simp add: pa)
qed

lemma parse_failure:
  assumes "parse_shadow_response r s = (Inl e, s')"
  shows "s' = s \<and> flatten r = Inl e"
proof (cases "flatten r")
  case (Inl e')
  with assms show ?thesis by (simp add: parse_shadow_response_def)
next
  case (Inr ds)
  then have "fst (merge ds s) = Inr ()" by (intro merge_succeeds flatten_named)
  with assms Inr show ?thesis by (simp add: parse_shadow_response_def)
qed

lemma parse_never_offline:
  "fst (parse_shadow_response r s) \<noteq> Inl AqualinkSystemOfflineException"
proof
  assume a: "fst (parse_shadow_response r s) = Inl AqualinkSystemOfflineException"
  obtain s' where "parse_shadow_response r s = (Inl AqualinkSystemOfflineException, s')"
    using a by (cases "parse_shadow_response r s") simp
  then have "flatten r = Inl AqualinkSystemOfflineException" by (simp add: parse_failure)
  from flatten_fails_early [OF this] show False by simp
qed

lemma parse_frame:
  assumes "parse_shadow_response r s = (res, s')"
  shows "serial s' = serial s \<and> aqualink s' = aqualink s \<and> last_refresh s' = last_refresh s \<and>
     online s' = online s \<and> next_id s \<le> next_id s'"
proof (cases "flatten r")
  case (Inl e)
  with assms show ?thesis by (simp add: parse_shadow_response_def)
next
  case (Inr ds)
  with assms have "merge ds s = (res, s')" by (simp add: parse_shadow_response_def)
  then show ?thesis by (rule merge_frame)
qed

lemma parse_keeps:
  assumes "devices s k = Some d"
  shows "\<exists>d'. devices (snd (parse_shadow_response r s)) k = Some d' \<and>
     ident d' = ident d \<and> cls d' = cls d"
proof (cases "flatten r")
  case (Inl e)
  with assms show ?thesis by (simp add: parse_shadow_response_def)
next
  case (Inr ds)
  with merge_keeps [OF assms, of ds] show ?thesis by (simp add: parse_shadow_response_def)
qed

lemma send_devices_request_frame:
  assumes "send_devices_request E kw s = (res, s1)"
  shows "serial s1 = serial s \<and> last_refresh s1 = last_refresh s \<and> online s1 = online s \<and>
     devices s1 = devices s \<and> next_id s1 = next_id s \<and>
     length (requests (aqualink s1)) \<le> length (requests (aqualink s)) + 2 \<and>
     logins (aqualink s1) \<le> logins (aqualink s) + 1"
  using assms
  unfolding send_devices_request_def send_request_def login_def Let_def
  by (auto split: if_splits sum.splits prod.splits)


section \<open>The claims about flattening\<close>








section \<open>The claims about refreshing\<close>

text \<open>
  C3. A refresh made when fewer than \<open>MIN_SECS_TO_REFRESH\<close> seconds have passed since the
  last successful one returns at once and leaves the whole state as it was: the online
  status, the timestamp, the registry, and the client with its record of requests and
  logins, so that no request was sent.
\<close>

theorem update_throttled:
  "now - last_refresh s < MIN_SECS_TO_REFRESH \<Longrightarrow>
     update E MIN_SECS_TO_REFRESH now now' s = (Inr (), s)"
  by (simp add: update_def update_with_def)

theorem update_throttled_witness:
  "(10::int) - last_refresh (init ''SN1'' \<lparr>id_token = ''t0'', requests = [], logins = 0\<rparr>) < 30 \<and>
   update \<lparr>send_result = (\<lambda>c rq. Inl AqualinkServiceException),
           login_result = (\<lambda>c. Inl AqualinkServiceException)\<rparr> 30 10 11
       (init ''SN1'' \<lparr>id_token = ''t0'', requests = [], logins = 0\<rparr>) =
     (Inr (), init ''SN1'' \<lparr>id_token = ''t0'', requests = [], logins = 0\<rparr>)"
proof -
  have h: "(10::int) - last_refresh (init ''SN1'' \<lparr>id_token = ''t0'', requests = [], logins = 0\<rparr>) < 30"
    by (simp add: init_def)
  from h update_throttled [OF h] show ?thesis by (rule conjI)
qed

text \<open>
  C4. When the refresh is not throttled and the fetch, after its one possible retry, ends
  with an exception that \<^verbatim>\<open>except AqualinkServiceException\<close> catches (a second unauthorized
  failure is one), \<^verbatim>\<open>update\<close> raises that exception, the online status is unknown, the
  timestamp and the registry are unchanged, and the fetch made at most two requests and
  one login.
\<close>

theorem update_service_error:
  assumes "\<not> now - last_refresh s < MIN_SECS_TO_REFRESH"
    and "send_reported_state_request E s = (Inl e, s1)"
    and "service_exception e"
  shows "update E MIN_SECS_TO_REFRESH now now' s = (Inl e, s1\<lparr>online := None\<rparr>) \<and>
    last_refresh s1 = last_refresh s \<and> devices s1 = devices s \<and>
    length (requests (aqualink s1)) \<le> length (requests (aqualink s)) + 2 \<and>
    logins (aqualink s1) \<le> logins (aqualink s) + 1"
proof -
  from assms(2) have "send_devices_request E [] s = (Inl e, s1)"
    by (simp add: send_reported_state_request_def)
  from send_devices_request_frame [OF this]
  have "last_refresh s1 = last_refresh s \<and> devices s1 = devices s \<and>
    length (requests (aqualink s1)) \<le> length (requests (aqualink s)) + 2 \<and>
    logins (aqualink s1) \<le> logins (aqualink s) + 1"
    by simp
  moreover have "update E MIN_SECS_TO_REFRESH now now' s = (Inl e, s1\<lparr>online := None\<rparr>)"
    using assms by (simp add: update_def update_with_def)
  ultimately show ?thesis by simp
qed

text \<open>Two unauthorized answers in a row: one login, two requests, then the error.\<close>

theorem update_service_error_witness:
  "\<not> (100::int) - last_refresh (init ''SN1'' \<lparr>id_token = ''t0'', requests = [], logins = 0\<rparr>) < 30 \<and>
   service_exception AqualinkServiceUnauthorizedException \<and>
   update \<lparr>send_result = (\<lambda>c rq. Inl AqualinkServiceUnauthorizedException),
           login_result = (\<lambda>c. Inr ''t1'')\<rparr> 30 100 101
       (init ''SN1'' \<lparr>id_token = ''t0'', requests = [], logins = 0\<rparr>) =
     (Inl AqualinkServiceUnauthorizedException,
      (init ''SN1''
        \<lparr>id_token = ''t1'',
         requests =
           [\<lparr>url = CYCLONEXT_DEVICES_URL @ ''/'' @ ''SN1'' @ ''/shadow'',
             headers = [(''Authorization'', ''t0'')], kwargs = []\<rparr>,
            \<lparr>url = CYCLONEXT_DEVICES_URL @ ''/'' @ ''SN1'' @ ''/shadow'',
             headers = [(''Authorization'', ''t1'')], kwargs = []\<rparr>],
         logins = 1\<rparr>)\<lparr>online := None\<rparr>)"
proof -
  have h1: "\<not> (100::int) - last_refresh (init ''SN1'' \<lparr>id_token = ''t0'', requests = [], logins = 0\<rparr>) < 30"
    by (simp add: init_def)
  have h2: "send_reported_state_request
      \<lparr>send_result = (\<lambda>c rq. Inl AqualinkServiceUnauthorizedException),
       login_result = (\<lambda>c. Inr ''t1'')\<rparr>
      (init ''SN1'' \<lparr>id_token = ''t0'', requests = [], logins = 0\<rparr>) =
     (Inl AqualinkServiceUnauthorizedException,
      init ''SN1''
        \<lparr>id_token = ''t1'',
         requests =
           [\<lparr>url = CYCLONEXT_DEVICES_URL @ ''/'' @ ''SN1'' @ ''/shadow'',
             headers = [(''Authorization'', ''t0'')], kwargs = []\<rparr>,
            \<lparr>url = CYCLONEXT_DEVICES_URL @ ''/'' @ ''SN1'' @ ''/shadow'',
             headers = [(''Authorization'', ''t1'')], kwargs = []\<rparr>],
         logins = 1\<rparr>)"
    by (simp add: send_reported_state_request_def send_devices_request_def send_request_def
        login_def init_def Let_def)
  have h3: "service_exception AqualinkServiceUnauthorizedException" by simp
  from update_service_error [OF h1 h2 h3, of 101]
  have "update \<lparr>send_result = (\<lambda>c rq. Inl AqualinkServiceUnauthorizedException),
           login_result = (\<lambda>c. Inr ''t1'')\<rparr> 30 100 101
       (init ''SN1'' \<lparr>id_token = ''t0'', requests = [], logins = 0\<rparr>) =
     (Inl AqualinkServiceUnauthorizedException,
      (init ''SN1''
        \<lparr>id_token = ''t1'',
         requests =
           [\<lparr>url = CYCLONEXT_DEVICES_URL @ ''/'' @ ''SN1'' @ ''/shadow'',
             headers = [(''Authorization'', ''t0'')], kwargs = []\<rparr>,
            \<lparr>url = CYCLONEXT_DEVICES_URL @ ''/'' @ ''SN1'' @ ''/shadow'',
             headers = [(''Authorization'', ''t1'')], kwargs = []\<rparr>],
         logins = 1\<rparr>)\<lparr>online := None\<rparr>)"
    by (rule conjunct1)
  with h1 h3 show ?thesis by (intro conjI)
qed



text \<open>
  C10. When the refresh is not throttled, the fetch succeeds and the repository's parse
  raises, \<^verbatim>\<open>update\<close> raises the same exception and the state is the one the fetch left:
  the parse changed nothing, and the registry, the online status and the timestamp are
  those from before the call. The exception is one of the four that decoding, walking to
  the robot sequence, iterating it and flattening can raise.
\<close>

theorem update_parse_failure:
  assumes "\<not> now - last_refresh s < MIN_SECS_TO_REFRESH"
    and "send_reported_state_request E s = (Inr r, s1)"
    and "parse_shadow_response r s1 = (Inl e, s2)"
  shows "update E MIN_SECS_TO_REFRESH now now' s = (Inl e, s1) \<and> s2 = s1 \<and>
    devices s1 = devices s \<and> online s1 = online s \<and> last_refresh s1 = last_refresh s \<and>
    e \<in> {JSONDecodeError, KeyError, TypeError, AttributeError}"
proof -
  from assms(2) have "send_devices_request E [] s = (Inr r, s1)"
    by (simp add: send_reported_state_request_def)
  from send_devices_request_frame [OF this]
  have frame: "devices s1 = devices s \<and> online s1 = online s \<and> last_refresh s1 = last_refresh s"
    by simp
  from parse_failure [OF assms(3)] have same: "s2 = s1" and fl: "flatten r = Inl e"
    by simp_all
  from flatten_fails_early [OF fl]
  have kind: "e \<in> {JSONDecodeError, KeyError, TypeError, AttributeError}" .
  then have "e \<noteq> AqualinkSystemOfflineException" by auto
  with assms same have "update E MIN_SECS_TO_REFRESH now now' s = (Inl e, s1)"
    by (simp add: update_def update_with_def)
  with frame same kind show ?thesis by simp
qed

text \<open>
  An instance: the response holds a durations value that is not a mapping; the registry,
  the online status and the timestamp of the earlier refresh stay.
\<close>

theorem update_parse_failure_witness:
  "\<not> (100::int) - last_refresh
      ((init ''SN1'' \<lparr>id_token = ''t0'', requests = [], logins = 0\<rparr>)
        \<lparr>last_refresh := 50, online := Some True,
         devices := [''mode'' \<mapsto> \<lparr>ident = 0, cls = CyclonextAttributeSensor,
            data = [(''name'', JStr ''mode''), (''state'', JStr ''filter'')]\<rparr>],
         next_id := 1\<rparr>) < 30 \<and>
   update
       \<lparr>send_result = (\<lambda>c rq. Inr (Response (Some (JObj [(''state'', JObj [(''reported'',
          JObj [(''equipment'', JObj [(''robot'', JList [JObj [(''mode'', JStr ''waste''),
            (''durations'', JInt 5)]])])])])])))),
        login_result = (\<lambda>c. Inr ''t1'')\<rparr> 30 100 101
       ((init ''SN1'' \<lparr>id_token = ''t0'', requests = [], logins = 0\<rparr>)
        \<lparr>last_refresh := 50, online := Some True,
         devices := [''mode'' \<mapsto> \<lparr>ident = 0, cls = CyclonextAttributeSensor,
            data = [(''name'', JStr ''mode''), (''state'', JStr ''filter'')]\<rparr>],
         next_id := 1\<rparr>) =
     (Inl AttributeError,
      (init ''SN1''
        \<lparr>id_token = ''t0'',
         requests =
           [\<lparr>url = CYCLONEXT_DEVICES_URL @ ''/'' @ ''SN1'' @ ''/shadow'',
             headers = [(''Authorization'', ''t0'')], kwargs = []\<rparr>],
         logins = 0\<rparr>)
        \<lparr>last_refresh := 50, online := Some True,
         devices := [''mode'' \<mapsto> \<lparr>ident = 0, cls = CyclonextAttributeSensor,
            data = [(''name'', JStr ''mode''), (''state'', JStr ''filter'')]\<rparr>],
         next_id := 1\<rparr>)"
  (is "\<not> 100 - last_refresh ?s < 30 \<and> update ?E 30 100 101 ?s = (?e, ?t)")
proof -
  have h1: "\<not> (100::int) - last_refresh ?s < 30"
    by (simp add: init_def)
  have h2: "send_reported_state_request ?E ?s =
     (Inr (Response (Some (JObj [(''state'', JObj [(''reported'',
          JObj [(''equipment'', JObj [(''robot'', JList [JObj [(''mode'', JStr ''waste''),
            (''durations'', JInt 5)]])])])])]))), ?t)"
    by (simp add: send_reported_state_request_def send_devices_request_def send_request_def
        login_def init_def Let_def)
  have h3: "parse_shadow_response (Response (Some (JObj [(''state'', JObj [(''reported'',
          JObj [(''equipment'', JObj [(''robot'', JList [JObj [(''mode'', JStr ''waste''),
            (''durations'', JInt 5)]])])])])]))) ?t = (Inl AttributeError, ?t)"
    by (simp add: parse_shadow_response_def flatten_def getitem_def)
  from update_parse_failure [OF h1 h2 h3, of 101]
  have "update ?E 30 100 101 ?s = (?e, ?t)" by (rule conjunct1)
  with h1 show ?thesis by (rule conjI)
qed

section \<open>The claims about the registry\<close>

text \<open>
  C8. Whatever the response and the registry, every key of the registry before a parse is
  a key after it, also when the parse raises.
\<close>

theorem parse_never_removes:
  "dom (devices s) \<subseteq> dom (devices (snd (parse_shadow_response r s)))"
proof (cases "flatten r")
  case (Inl e)
  then show ?thesis by (simp add: parse_shadow_response_def)
next
  case (Inr ds)
  with merge_dom_mono [of s ds] show ?thesis by (simp add: parse_shadow_response_def)
qed

text \<open>An instance: the device boost is absent from the document and stays.\<close>

theorem parse_never_removes_witness:
  "dom (devices ((init ''SN1'' \<lparr>id_token = ''t0'', requests = [], logins = 0\<rparr>)
        \<lparr>devices := [''boost'' \<mapsto> \<lparr>ident = 0, cls = CyclonextProg,
            data = [(''name'', JStr ''boost''), (''state'', JInt 1)]\<rparr>],
         next_id := 1\<rparr>))
   \<subseteq> dom (devices (snd (parse_shadow_response
        (Response (Some (JObj [(''state'', JObj [(''reported'', JObj [(''equipment'',
           JObj [(''robot'', JList [JObj [(''mode'', JStr ''waste'')]])])])])])))
        ((init ''SN1'' \<lparr>id_token = ''t0'', requests = [], logins = 0\<rparr>)
        \<lparr>devices := [''boost'' \<mapsto> \<lparr>ident = 0, cls = CyclonextProg,
            data = [(''name'', JStr ''boost''), (''state'', JInt 1)]\<rparr>],
         next_id := 1\<rparr>))))"
  by (rule parse_never_removes)

lemma from_data_cls:
  assumes "from_data s v = Inr d" and "map_of v ''name'' = Some n"
  shows "cls d = (if n \<in> {JStr ''production'', JStr ''boost'', JStr ''low''}
                  then CyclonextProg else CyclonextAttributeSensor)"
proof -
  define C where "C = (if n \<in> {JStr ''production'', JStr ''boost'', JStr ''low''}
                  then CyclonextProg else CyclonextAttributeSensor)"
  from assms have "d = \<lparr>ident = next_id s, cls = C, data = v\<rparr>"
    by (simp add: from_data_def getitem_def C_def)
  then have "cls d = C" by simp
  then show ?thesis unfolding C_def .
qed

text \<open>
  C7. The class of a device that \<^verbatim>\<open>from_data\<close> creates depends on the value of
  \<^verbatim>\<open>data["name"]\<close> alone: the program class for production, boost and low, the attribute
  sensor class for anything else. A parse never changes the class (or the identity) of a
  device that is already registered, and a device the parse adds under a key has the class
  that rule gives the key.
\<close>

theorem device_class_by_name:
  "(map_of v ''name'' = Some n \<longrightarrow>
      (\<exists>d. from_data s v = Inr d \<and>
         cls d = (if n \<in> {JStr ''production'', JStr ''boost'', JStr ''low''}
                  then CyclonextProg else CyclonextAttributeSensor))) \<and>
   (devices s k = Some d0 \<longrightarrow>
      (\<exists>d'. devices (snd (parse_shadow_response r s)) k = Some d' \<and>
         cls d' = cls d0 \<and> ident d' = ident d0)) \<and>
   (devices s k = None \<longrightarrow> devices (snd (parse_shadow_response r s)) k = Some d1 \<longrightarrow>
      cls d1 = (if JStr k \<in> {JStr ''production'', JStr ''boost'', JStr ''low''}
                then CyclonextProg else CyclonextAttributeSensor))"
proof (intro conjI impI)
  assume "map_of v ''name'' = Some n"
  then show "\<exists>d. from_data s v = Inr d \<and>
         cls d = (if n \<in> {JStr ''production'', JStr ''boost'', JStr ''low''}
                  then CyclonextProg else CyclonextAttributeSensor)"
    by (simp add: from_data_def getitem_def)
next
  assume "devices s k = Some d0"
  from parse_keeps [OF this, of r]
  show "\<exists>d'. devices (snd (parse_shadow_response r s)) k = Some d' \<and>
         cls d' = cls d0 \<and> ident d' = ident d0"
    by blast
next
  assume none: "devices s k = None"
    and some: "devices (snd (parse_shadow_response r s)) k = Some d1"
  define C where "C = (if JStr k \<in> {JStr ''production'', JStr ''boost'', JStr ''low''}
                then CyclonextProg else CyclonextAttributeSensor)"
  have "cls d1 = C"
  proof (cases "flatten r")
    case (Inl e)
    with none some show ?thesis by (simp add: parse_shadow_response_def)
  next
    case (Inr ds)
    with some have m: "devices (snd (merge ds s)) k = Some d1"
      by (simp add: parse_shadow_response_def)
    have "k \<in> fst ` set ds"
    proof (rule ccontr)
      assume "k \<notin> fst ` set ds"
      from merge_untouched [OF this, of s] m none show False by simp
    qed
    then obtain a where mem: "(k, a) \<in> set ds" by force
    from flatten_entry [OF Inr mem] obtain st
      where a: "a = [(''name'', JStr k), (''state'', st)]" by blast
    from merge_entry [OF flatten_distinct [OF Inr] flatten_named [OF Inr] mem, of s] none m
    have fd: "from_data (s\<lparr>next_id := ident d1\<rparr>) a = Inr d1" by auto
    have nm: "map_of a ''name'' = Some (JStr k)" by (simp add: a)
    from from_data_cls [OF fd nm] show ?thesis unfolding C_def .
  qed
  then show "cls d1 = (if JStr k \<in> {JStr ''production'', JStr ''boost'', JStr ''low''}
                then CyclonextProg else CyclonextAttributeSensor)"
    unfolding C_def .
qed

text \<open>An instance of each part: boost is created as a program and stays one.\<close>

theorem device_class_by_name_witness:
  "map_of [(''name'', JStr ''boost''), (''state'', JInt 1)] ''name'' = Some (JStr ''boost'') \<and>
   (\<exists>d. from_data (init ''SN1'' \<lparr>id_token = ''t0'', requests = [], logins = 0\<rparr>)
          [(''name'', JStr ''boost''), (''state'', JInt 1)] = Inr d \<and>
        cls d = CyclonextProg) \<and>
   devices ((init ''SN1'' \<lparr>id_token = ''t0'', requests = [], logins = 0\<rparr>)
        \<lparr>devices := [''boost'' \<mapsto> \<lparr>ident = 0, cls = CyclonextProg,
            data = [(''name'', JStr ''boost''), (''state'', JInt 1)]\<rparr>],
         next_id := 1\<rparr>) ''boost'' =
     Some \<lparr>ident = 0, cls = CyclonextProg,
            data = [(''name'', JStr ''boost''), (''state'', JInt 1)]\<rparr> \<and>
   (\<exists>d'. devices (snd (parse_shadow_response (Response None)
        ((init ''SN1'' \<lparr>id_token = ''t0'', requests = [], logins = 0\<rparr>)
        \<lparr>devices := [''boost'' \<mapsto> \<lparr>ident = 0, cls = CyclonextProg,
            data = [(''name'', JStr ''boost''), (''state'', JInt 1)]\<rparr>],
         next_id := 1\<rparr>))) ''boost'' = Some d' \<and> cls d' = CyclonextProg)"
  (is "?h1 \<and> ?c1 \<and> ?h2 \<and> ?c2")
proof -
  have h1: ?h1 by simp
  have h2: ?h2 by (simp add: init_def)
  from device_class_by_name [of "[(''name'', JStr ''boost''), (''state'', JInt 1)]" "JStr ''boost''"
      "init ''SN1'' \<lparr>id_token = ''t0'', requests = [], logins = 0\<rparr>", THEN conjunct1, rule_format, OF h1]
  have c1: ?c1 by simp
  from device_class_by_name [THEN conjunct2, THEN conjunct1, rule_format, OF h2, of "Response None"]
  obtain d' where "devices (snd (parse_shadow_response (Response None)
        ((init ''SN1'' \<lparr>id_token = ''t0'', requests = [], logins = 0\<rparr>)
        \<lparr>devices := [''boost'' \<mapsto> \<lparr>ident = 0, cls = CyclonextProg,
            data = [(''name'', JStr ''boost''), (''state'', JInt 1)]\<rparr>],
         next_id := 1\<rparr>))) ''boost'' = Some d'"
    and "cls d' = cls \<lparr>ident = 0, cls = CyclonextProg,
            data = [(''name'', JStr ''boost''), (''state'', JInt 1)]\<rparr>"
    by (elim exE conjE)
  then have c2: ?c2 by (intro exI [of _ d']) simp
  from h1 c1 h2 c2 show ?thesis by (intro conjI)
qed

lemma parse_success:
  "flatten r = Inr ds \<Longrightarrow> parse_shadow_response r s = (Inr (), snd (merge ds s))"
proof -
  assume f: "flatten r = Inr ds"
  then have "fst (merge ds s) = Inr ()" by (intro merge_succeeds flatten_named)
  then have "merge ds s = (Inr (), snd (merge ds s))" by (metis prod.collapse)
  with f show ?thesis by (simp add: parse_shadow_response_def)
qed

lemma init_registry_named: "registry_named (init sn c)"
  by (simp add: registry_named_def init_def)

lemma parse_registry_named:
  assumes "registry_named s"
  shows "registry_named (snd (parse_shadow_response r s))"
proof (cases "flatten r")
  case (Inl e)
  with assms show ?thesis by (simp add: parse_shadow_response_def)
next
  case (Inr ds)
  have p: "snd (parse_shadow_response r s) = snd (merge ds s)"
    by (simp add: parse_success [OF Inr])
  have nm: "named ds" using Inr by (rule flatten_named)
  have dist: "distinct (map fst ds)" using Inr by (rule flatten_distinct)
  show ?thesis
    unfolding registry_named_def p
  proof (intro allI impI)
    fix k d' assume d': "devices (snd (merge ds s)) k = Some d'"
    show "map_of (data d') ''name'' = Some (JStr k)"
    proof (cases "k \<in> fst ` set ds")
      case False
      from merge_untouched [OF this, of s] d' have "devices s k = Some d'" by simp
      with assms show ?thesis by (simp add: registry_named_def)
    next
      case True
      then obtain a where mem: "(k, a) \<in> set ds" by force
      from flatten_entry [OF Inr mem] obtain st
        where a: "a = [(''name'', JStr k), (''state'', st)]" by blast
      note me = merge_entry [OF dist nm mem, of s]
      show ?thesis
      proof (cases "devices s k")
        case (Some d)
        with me d' have "d' = setitems a d" by simp
        then show ?thesis by (simp add: a update_conv')
      next
        case None
        with me d' have "from_data (s\<lparr>next_id := ident d'\<rparr>) a = Inr d'" by auto
        from from_data_named [of a "JStr k" "s\<lparr>next_id := ident d'\<rparr>"] this
        have "data d' = a" by (simp add: a)
        then show ?thesis by (simp add: a)
      qed
    qed
  qed
qed

text \<open>
  C6. For an entry \<open>(name, a)\<close> that flattening produced, the parse succeeds, \<open>a\<close> is
  \<^verbatim>\<open>{"name": name, "state": st}\<close>, and the keys of the registry afterwards are the old keys
  and the flattened names, each once. If a device is registered under \<open>name\<close>, the same
  object stays there, with its class, and its data is the old data with \<^verbatim>\<open>name\<close> and
  \<^verbatim>\<open>state\<close> assigned; when the device already carries its key as its name (as every
  device that a parse created does), that is the old data with only \<^verbatim>\<open>state\<close> assigned. If
  no device is registered under \<open>name\<close>, the device there afterwards is the one
  \<^verbatim>\<open>from_data\<close> builds from \<open>a\<close>, with an identity that was free before.
\<close>

theorem merge_updates_in_place:
  assumes "flatten r = Inr ds" and "(name, a) \<in> set ds"
  shows "\<exists>st. a = [(''name'', JStr name), (''state'', st)] \<and>
     fst (parse_shadow_response r s) = Inr () \<and>
     dom (devices (snd (parse_shadow_response r s))) = dom (devices s) \<union> fst ` set ds \<and>
     (\<forall>d. devices s name = Some d \<longrightarrow>
        devices (snd (parse_shadow_response r s)) name =
          Some (d\<lparr>data := AList.update ''state'' st
                   (AList.update ''name'' (JStr name) (data d))\<rparr>)) \<and>
     (\<forall>d. devices s name = Some d \<longrightarrow> map_of (data d) ''name'' = Some (JStr name) \<longrightarrow>
        devices (snd (parse_shadow_response r s)) name =
          Some (d\<lparr>data := AList.update ''state'' st (data d)\<rparr>)) \<and>
     (devices s name = None \<longrightarrow>
        (\<exists>d'. devices (snd (parse_shadow_response r s)) name = Some d' \<and>
           next_id s \<le> ident d' \<and> from_data (s\<lparr>next_id := ident d'\<rparr>) a = Inr d'))"
proof -
  from flatten_entry [OF assms] obtain st
    where a: "a = [(''name'', JStr name), (''state'', st)]" by blast
  have p: "parse_shadow_response r s = (Inr (), snd (merge ds s))"
    using assms(1) by (rule parse_success)
  have nm: "named ds" using assms(1) by (rule flatten_named)
  have dist: "distinct (map fst ds)" using assms(1) by (rule flatten_distinct)
  note me = merge_entry [OF dist nm assms(2), of s]
  have ex: "devices (snd (merge ds s)) name =
      Some (d\<lparr>data := AList.update ''state'' st (AList.update ''name'' (JStr name) (data d))\<rparr>)"
    if "devices s name = Some d" for d
    using me that unfolding a by simp
  have ex': "devices (snd (merge ds s)) name = Some (d\<lparr>data := AList.update ''state'' st (data d)\<rparr>)"
    if "devices s name = Some d" and "map_of (data d) ''name'' = Some (JStr name)" for d
    using ex [OF that(1)] update_triv [OF that(2)] by simp
  have new: "\<exists>d'. devices (snd (merge ds s)) name = Some d' \<and>
           next_id s \<le> ident d' \<and> from_data (s\<lparr>next_id := ident d'\<rparr>) a = Inr d'"
    if "devices s name = None"
    using me that by blast
  have dm: "dom (devices (snd (merge ds s))) = dom (devices s) \<union> fst ` set ds"
    using nm by (rule merge_dom)
  show ?thesis
    unfolding p using a ex ex' new dm by (intro exI [of _ st]) simp
qed

text \<open>
  An instance, the re-parse of the spec: mode changes from filter to waste on a device
  that carries one more attribute; the device keeps its identity, its class and that
  attribute, and the registry has no other key.
\<close>

theorem merge_updates_in_place_witness:
  "flatten (Response (Some (JObj [(''state'', JObj [(''reported'', JObj [(''equipment'',
       JObj [(''robot'', JList [JObj [(''mode'', JStr ''waste'')]])])])])]))) =
     Inr [(''mode'', [(''name'', JStr ''mode''), (''state'', JStr ''waste'')])] \<and>
   (''mode'', [(''name'', JStr ''mode''), (''state'', JStr ''waste'')]) \<in>
     set [(''mode'', [(''name'', JStr ''mode''), (''state'', JStr ''waste'')])] \<and>
   devices (snd (parse_shadow_response
       (Response (Some (JObj [(''state'', JObj [(''reported'', JObj [(''equipment'',
         JObj [(''robot'', JList [JObj [(''mode'', JStr ''waste'')]])])])])])))
       ((init ''SN1'' \<lparr>id_token = ''t0'', requests = [], logins = 0\<rparr>)
        \<lparr>devices := [''mode'' \<mapsto> \<lparr>ident = 0, cls = CyclonextAttributeSensor,
            data = [(''name'', JStr ''mode''), (''state'', JStr ''filter''),
                    (''label'', JStr ''Mode'')]\<rparr>],
         next_id := 1\<rparr>))) ''mode'' =
     Some \<lparr>ident = 0, cls = CyclonextAttributeSensor,
            data = [(''name'', JStr ''mode''), (''state'', JStr ''waste''),
                    (''label'', JStr ''Mode'')]\<rparr>"
  (is "flatten ?r = Inr ?ds \<and> ?m \<and> devices (snd (parse_shadow_response ?r ?s)) ''mode'' = Some ?d'")
proof -
  have h1: "flatten ?r = Inr ?ds"
    by (simp add: flatten_def getitem_def attrs_def)
  have h2: ?m by simp
  have h3: "devices ?s ''mode'' = Some \<lparr>ident = 0, cls = CyclonextAttributeSensor,
            data = [(''name'', JStr ''mode''), (''state'', JStr ''filter''),
                    (''label'', JStr ''Mode'')]\<rparr>"
    by (simp add: init_def)
  have h4: "map_of (data \<lparr>ident = 0, cls = CyclonextAttributeSensor,
            data = [(''name'', JStr ''mode''), (''state'', JStr ''filter''),
                    (''label'', JStr ''Mode'')]\<rparr>) ''name'' = Some (JStr ''mode'')"
    by simp
  from merge_updates_in_place [OF h1 h2, of ?s] obtain st
    where a: "[(''name'', JStr ''mode''), (''state'', JStr ''waste'')] =
        [(''name'', JStr ''mode''), (''state'', st)]"
      and c: "\<forall>d. devices ?s ''mode'' = Some d \<longrightarrow> map_of (data d) ''name'' = Some (JStr ''mode'') \<longrightarrow>
        devices (snd (parse_shadow_response ?r ?s)) ''mode'' =
          Some (d\<lparr>data := AList.update ''state'' st (data d)\<rparr>)"
    by (elim exE conjE)
  from a have st: "st = JStr ''waste''" by simp
  from c [rule_format, OF h3 h4]
  have "devices (snd (parse_shadow_response ?r ?s)) ''mode'' = Some ?d'"
    unfolding st by simp
  with h1 h2 show ?thesis by (intro conjI)
qed

section \<open>The claim about re-authentication\<close>

lemma update_success:
  assumes "\<not> now - last_refresh s < MIN_SECS_TO_REFRESH"
    and "send_reported_state_request E s = (Inr r, s1)"
    and "parse_shadow_response r s1 = (Inr (), s2)"
  shows "update E MIN_SECS_TO_REFRESH now now' s =
    (Inr (), s2\<lparr>online := Some True, last_refresh := now'\<rparr>)"
  using assms by (simp add: update_def update_with_def)

text \<open>
  C2, as amended. Let \<open>rq1\<close> be the first request of \<^verbatim>\<open>send_devices_request\<close> (whatever
  the keyword arguments \<open>kw\<close>: none for the fetch of the reported state, the method and the
  body for a desired-state submission) and \<open>c1\<close> the client after it. If the first request
  fails as unauthorized, exactly one login is made. If the login raises, its exception
  leaves the function and no second request is sent. If the login returns a credential,
  exactly one more request is sent, with the authorization header built from that
  credential, and its outcome is the outcome of the function. When that second request
  of a refresh that is not throttled succeeds and the response parses, \<^verbatim>\<open>update\<close> returns
  with the online status true and the timestamp set.
\<close>

theorem unauthorized_retries_once:
  assumes "rq1 = \<lparr>url = CYCLONEXT_DEVICES_URL @ ''/'' @ serial s @ ''/shadow'',
                  headers = [(''Authorization'', id_token (aqualink s))], kwargs = kw\<rparr>"
    and "c1 = (aqualink s)\<lparr>requests := requests (aqualink s) @ [rq1]\<rparr>"
    and "send_result E (aqualink s) rq1 = Inl AqualinkServiceUnauthorizedException"
  shows "logins (aqualink (snd (send_devices_request E kw s))) = Suc (logins (aqualink s)) \<and>
    (\<forall>e. login_result E c1 = Inl e \<longrightarrow>
       send_devices_request E kw s = (Inl e, s\<lparr>aqualink := c1\<lparr>logins := Suc (logins c1)\<rparr>\<rparr>)) \<and>
    (\<forall>tok c2 rq2. login_result E c1 = Inr tok \<longrightarrow>
       c2 = c1\<lparr>id_token := tok, logins := Suc (logins c1)\<rparr> \<longrightarrow>
       rq2 = rq1\<lparr>headers := [(''Authorization'', tok)]\<rparr> \<longrightarrow>
       send_devices_request E kw s =
         (send_result E c2 rq2, s\<lparr>aqualink := c2\<lparr>requests := requests c1 @ [rq2]\<rparr>\<rparr>) \<and>
       (\<forall>r s4. kw = [] \<longrightarrow> \<not> now - last_refresh s < MIN_SECS_TO_REFRESH \<longrightarrow>
          send_result E c2 rq2 = Inr r \<longrightarrow>
          parse_shadow_response r (s\<lparr>aqualink := c2\<lparr>requests := requests c1 @ [rq2]\<rparr>\<rparr>) =
            (Inr (), s4) \<longrightarrow>
          update E MIN_SECS_TO_REFRESH now now' s =
            (Inr (), s4\<lparr>online := Some True, last_refresh := now'\<rparr>)))"
proof -
  have fail: "send_devices_request E kw s = (Inl e, s\<lparr>aqualink := c1\<lparr>logins := Suc (logins c1)\<rparr>\<rparr>)"
    if "login_result E c1 = Inl e" for e
    using assms that
    by (simp add: send_devices_request_def send_request_def login_def Let_def)
  have retry: "send_devices_request E kw s =
      (send_result E c2 rq2, s\<lparr>aqualink := c2\<lparr>requests := requests c1 @ [rq2]\<rparr>\<rparr>)"
    if "login_result E c1 = Inr tok" and "c2 = c1\<lparr>id_token := tok, logins := Suc (logins c1)\<rparr>"
      and "rq2 = rq1\<lparr>headers := [(''Authorization'', tok)]\<rparr>" for tok c2 rq2
    using assms that
    by (simp add: send_devices_request_def send_request_def login_def Let_def)
  have count: "logins (aqualink (snd (send_devices_request E kw s))) = Suc (logins (aqualink s))"
  proof (cases "login_result E c1")
    case (Inl e)
    from fail [OF this] show ?thesis by (simp add: assms(2))
  next
    case (Inr tok)
    from retry [OF this refl refl] show ?thesis by (simp add: assms(2))
  qed
  have upd: "update E MIN_SECS_TO_REFRESH now now' s =
        (Inr (), s4\<lparr>online := Some True, last_refresh := now'\<rparr>)"
    if "login_result E c1 = Inr tok" and "c2 = c1\<lparr>id_token := tok, logins := Suc (logins c1)\<rparr>"
      and "rq2 = rq1\<lparr>headers := [(''Authorization'', tok)]\<rparr>"
      and "kw = []" and "\<not> now - last_refresh s < MIN_SECS_TO_REFRESH"
      and "send_result E c2 rq2 = Inr r"
      and "parse_shadow_response r (s\<lparr>aqualink := c2\<lparr>requests := requests c1 @ [rq2]\<rparr>\<rparr>) =
            (Inr (), s4)"
    for tok c2 rq2 r s4
  proof -
    from retry [OF that(1-3)] that(4,6)
    have "send_reported_state_request E s =
        (Inr r, s\<lparr>aqualink := c2\<lparr>requests := requests c1 @ [rq2]\<rparr>\<rparr>)"
      by (simp add: send_reported_state_request_def)
    from update_success [OF that(5) this that(7)] show ?thesis .
  qed
  from count fail retry upd show ?thesis by blast
qed

text \<open>
  An instance, the scenario of the spec: the first answer is unauthorized, the login
  returns a credential, the second request succeeds and its document parses.
\<close>

theorem unauthorized_retries_once_witness:
  "send_result
      \<lparr>send_result = (\<lambda>c rq. if requests c = [] then Inl AqualinkServiceUnauthorizedException
         else Inr (Response (Some (JObj [(''state'', JObj [(''reported'', JObj [(''equipment'',
           JObj [(''robot'', JList [JObj [(''mode'', JStr ''filter'')]])])])])])))),
       login_result = (\<lambda>c. Inr ''t1'')\<rparr>
      (aqualink (init ''SN1'' \<lparr>id_token = ''t0'', requests = [], logins = 0\<rparr>))
      \<lparr>url = CYCLONEXT_DEVICES_URL @ ''/'' @ ''SN1'' @ ''/shadow'',
       headers = [(''Authorization'', ''t0'')], kwargs = []\<rparr> =
     Inl AqualinkServiceUnauthorizedException \<and>
   \<not> (100::int) - last_refresh (init ''SN1'' \<lparr>id_token = ''t0'', requests = [], logins = 0\<rparr>) < 30 \<and>
   update
      \<lparr>send_result = (\<lambda>c rq. if requests c = [] then Inl AqualinkServiceUnauthorizedException
         else Inr (Response (Some (JObj [(''state'', JObj [(''reported'', JObj [(''equipment'',
           JObj [(''robot'', JList [JObj [(''mode'', JStr ''filter'')]])])])])])))),
       login_result = (\<lambda>c. Inr ''t1'')\<rparr> 30 100 101
      (init ''SN1'' \<lparr>id_token = ''t0'', requests = [], logins = 0\<rparr>) =
     (Inr (),
      \<lparr>serial = ''SN1'',
       aqualink =
         \<lparr>id_token = ''t1'',
          requests =
            [\<lparr>url = CYCLONEXT_DEVICES_URL @ ''/'' @ ''SN1'' @ ''/shadow'',
              headers = [(''Authorization'', ''t0'')], kwargs = []\<rparr>,
             \<lparr>url = CYCLONEXT_DEVICES_URL @ ''/'' @ ''SN1'' @ ''/shadow'',
              headers = [(''Authorization'', ''t1'')], kwargs = []\<rparr>],
          logins = 1\<rparr>,
       last_refresh = 101, online = Some True,
       devices = [''mode'' \<mapsto> \<lparr>ident = 0, cls = CyclonextAttributeSensor,
          data = [(''name'', JStr ''mode''), (''state'', JStr ''filter'')]\<rparr>],
       next_id = 1\<rparr>)"
  (is "send_result ?E (aqualink ?s) ?rq1 = ?u \<and> \<not> 100 - last_refresh ?s < 30 \<and>
       update ?E 30 100 101 ?s = (Inr (), ?final)")
proof -
  let ?c1 = "\<lparr>id_token = ''t0'', requests = [?rq1], logins = 0\<rparr>"
  let ?c2 = "?c1\<lparr>id_token := ''t1'', logins := Suc (logins ?c1)\<rparr>"
  let ?rq2 = "?rq1\<lparr>headers := [(''Authorization'', ''t1'')]\<rparr>"
  let ?r = "Response (Some (JObj [(''state'', JObj [(''reported'', JObj [(''equipment'',
           JObj [(''robot'', JList [JObj [(''mode'', JStr ''filter'')]])])])])]))"
  let ?s3 = "?s\<lparr>aqualink := ?c2\<lparr>requests := requests ?c1 @ [?rq2]\<rparr>\<rparr>"
  let ?s4 = "?s3\<lparr>devices := [''mode'' \<mapsto> \<lparr>ident = 0, cls = CyclonextAttributeSensor,
          data = [(''name'', JStr ''mode''), (''state'', JStr ''filter'')]\<rparr>], next_id := 1\<rparr>"
  have a1: "?rq1 = \<lparr>url = CYCLONEXT_DEVICES_URL @ ''/'' @ serial ?s @ ''/shadow'',
                  headers = [(''Authorization'', id_token (aqualink ?s))], kwargs = []\<rparr>"
    by (simp add: init_def)
  have a2: "?c1 = (aqualink ?s)\<lparr>requests := requests (aqualink ?s) @ [?rq1]\<rparr>"
    by (simp add: init_def)
  have a3: "send_result ?E (aqualink ?s) ?rq1 = ?u"
    by (simp add: init_def)
  have h1: "\<not> (100::int) - last_refresh ?s < 30"
    by (simp add: init_def)
  have l: "login_result ?E ?c1 = Inr ''t1''" by simp
  have hs: "send_result ?E ?c2 ?rq2 = Inr ?r" by simp
  have hp: "parse_shadow_response ?r ?s3 = (Inr (), ?s4)"
    by (simp add: parse_shadow_response_def flatten_def getitem_def attrs_def from_data_def
        init_def)
  note t = unauthorized_retries_once [where now = 100 and MIN_SECS_TO_REFRESH = 30
      and now' = 101, OF a1 a2 a3]
  note t3 = t [THEN conjunct2, THEN conjunct2, rule_format, OF l refl refl]
  from t3 [THEN conjunct2, rule_format, OF refl h1 hs hp]
  have "update ?E 30 100 101 ?s = (Inr (), ?final)"
    by (simp add: init_def)
  with a3 h1 show ?thesis by (intro conjI)
qed

text \<open>
  C2 as stated fails: the first request is answered unauthorized and the login raises;
  the login's exception leaves the function and the request is not sent again.
\<close>

theorem login_failure_is_not_retried:
  "send_reported_state_request
      \<lparr>send_result = (\<lambda>c rq. Inl AqualinkServiceUnauthorizedException),
       login_result = (\<lambda>c. Inl AqualinkServiceException)\<rparr>
      (init ''SN1'' \<lparr>id_token = ''t0'', requests = [], logins = 0\<rparr>) =
     (Inl AqualinkServiceException,
      init ''SN1''
        \<lparr>id_token = ''t0'',
         requests =
           [\<lparr>url = CYCLONEXT_DEVICES_URL @ ''/'' @ ''SN1'' @ ''/shadow'',
             headers = [(''Authorization'', ''t0'')], kwargs = []\<rparr>],
         logins = 1\<rparr>)"
  by (simp add: send_reported_state_request_def send_devices_request_def send_request_def
      login_def init_def Let_def)

section \<open>The claim about iteration order\<close>


























end
